theory Spec2Isabelle
  imports Complex_Main
begin

section \<open>JavaScript values\<close>

text \<open>
  The server receives its tool arguments as parsed JSON. A JavaScript number is an IEEE
  double: the finite doubles are rationals, and the four special values are kept apart
  (\<open>NegZero\<close> is \<open>-0\<close>, \<open>Fin 0\<close> is \<open>+0\<close>). Comparison, \<open>Math.max\<close>, \<open>Math.round\<close> and
  truthiness are exact on doubles and are defined here; the two rounding operations the
  program uses (\<open>/\<close> and \<open>*\<close>) are supplied by the runtime (see \<open>env\<close> below).
\<close>

datatype jsnum = NaN | PInf | NInf | NegZero | Fin rat

datatype json =
    JNull
  | JBool bool
  | JNum jsnum
  | JStr string
  | JArr "json list"
  | JObj "(string \<times> json) list"

text \<open>A JavaScript value as the program sees it: \<open>None\<close> is \<open>undefined\<close>.\<close>

type_synonym jsval = "json option"

fun typeof :: "jsval \<Rightarrow> string" where
  "typeof None = ''undefined''"
| "typeof (Some JNull) = ''object''"
| "typeof (Some (JBool b)) = ''boolean''"
| "typeof (Some (JNum n)) = ''number''"
| "typeof (Some (JStr s)) = ''string''"
| "typeof (Some (JArr xs)) = ''object''"
| "typeof (Some (JObj fs)) = ''object''"

text \<open>
  Property read \<open>v.k\<close>, for the named keys the program reads (none of them is \<open>length\<close>,
  an array index or a member of a prototype): an object answers with its own property, every
  other value with \<open>undefined\<close>.
\<close>

fun js_get :: "jsval \<Rightarrow> string \<Rightarrow> jsval" where
  "js_get (Some (JObj fs)) k = map_of fs k"
| "js_get v k = None"

fun truthy_num :: "jsnum \<Rightarrow> bool" where
  "truthy_num NaN = False"
| "truthy_num NegZero = False"
| "truthy_num (Fin q) = (q \<noteq> 0)"
| "truthy_num PInf = True"
| "truthy_num NInf = True"

fun truthy :: "jsval \<Rightarrow> bool" where
  "truthy None = False"
| "truthy (Some JNull) = False"
| "truthy (Some (JBool b)) = b"
| "truthy (Some (JNum n)) = truthy_num n"
| "truthy (Some (JStr s)) = (s \<noteq> [])"
| "truthy (Some (JArr xs)) = True"
| "truthy (Some (JObj fs)) = True"

text \<open>The relational operator \<open><\<close> on numbers: false whenever an operand is \<open>NaN\<close>.\<close>

fun num_lt :: "jsnum \<Rightarrow> jsnum \<Rightarrow> bool" where
  "num_lt NaN b = False"
| "num_lt a NaN = False"
| "num_lt PInf b = False"
| "num_lt a PInf = True"
| "num_lt a NInf = False"
| "num_lt NInf b = True"
| "num_lt NegZero NegZero = False"
| "num_lt NegZero (Fin q) = (0 < q)"
| "num_lt (Fin p) NegZero = (p < 0)"
| "num_lt (Fin p) (Fin q) = (p < q)"

text \<open>\<open>Math.max\<close> of two numbers: \<open>NaN\<close> is contagious and \<open>+0\<close> is larger than \<open>-0\<close>.\<close>

definition math_max :: "jsnum \<Rightarrow> jsnum \<Rightarrow> jsnum" where
  "math_max a b =
     (if a = NaN \<or> b = NaN then NaN
      else if num_lt a b then b
      else if num_lt b a then a
      else if a = NegZero then b else a)"

text \<open>\<open>Math.round\<close>: the nearest integer, ties towards \<open>+\<infinity>\<close>; a result in \<open>[-1/2, 0)\<close> is \<open>-0\<close>.\<close>

fun math_round :: "jsnum \<Rightarrow> jsnum" where
  "math_round (Fin q) =
     (if q < 0 \<and> - (1 / 2) \<le> q then NegZero else Fin (of_int \<lfloor>q + 1 / 2\<rfloor>))"
| "math_round x = x"

text \<open>\<open>x || d\<close> for an operand that is a number or \<open>undefined\<close>, and for a string or \<open>undefined\<close>.\<close>

fun num_or :: "jsnum option \<Rightarrow> jsnum \<Rightarrow> jsnum" where
  "num_or None d = d"
| "num_or (Some n) d = (if truthy_num n then n else d)"

fun str_or :: "string option \<Rightarrow> string \<Rightarrow> string" where
  "str_or None d = d"
| "str_or (Some s) d = (if s \<noteq> [] then s else d)"

section \<open>The argument validator\<close>

text \<open>\<open>xs.includes(v)\<close> for an array literal of strings.\<close>

fun js_includes :: "string list \<Rightarrow> jsval \<Rightarrow> bool" where
  "js_includes xs (Some (JStr s)) = (s \<in> set xs)"
| "js_includes xs v = False"

text \<open>
  \<open>isValidGenerateImageArgs\<close> of \<open>index.ts\<close>, conjunct by conjunct. The source's \<open>&&\<close> stops at
  the first false conjunct; the property reads after it are total here (\<open>js_get\<close> of a value
  that is no object is \<open>undefined\<close>), so the conjunction has the same value.
\<close>

definition isValidGenerateImageArgs :: "jsval \<Rightarrow> bool" where
  "isValidGenerateImageArgs args \<longleftrightarrow>
     typeof args = ''object'' \<and>
     args \<noteq> Some JNull \<and>
     typeof (js_get args ''prompt'') = ''string'' \<and>
     (js_get args ''model'' = None \<or> typeof (js_get args ''model'') = ''string'') \<and>
     (js_get args ''width'' = None \<or> typeof (js_get args ''width'') = ''number'') \<and>
     (js_get args ''height'' = None \<or> typeof (js_get args ''height'') = ''number'') \<and>
     (js_get args ''steps'' = None \<or> typeof (js_get args ''steps'') = ''number'') \<and>
     (js_get args ''n'' = None \<or> typeof (js_get args ''n'') = ''number'') \<and>
     (js_get args ''outputDir'' = None \<or> typeof (js_get args ''outputDir'') = ''string'') \<and>
     (js_get args ''format'' = None \<or> js_includes [''png'', ''jpg'', ''svg''] (js_get args ''format''))"

subsection \<open>The validator's contract, in the specification's words\<close>

fun is_string :: "json \<Rightarrow> bool" where
  "is_string (JStr s) = True"
| "is_string v = False"

fun is_number :: "json \<Rightarrow> bool" where
  "is_number (JNum n) = True"
| "is_number v = False"

fun is_nonnull_object :: "jsval \<Rightarrow> bool" where
  "is_nonnull_object (Some (JObj fs)) = True"
| "is_nonnull_object (Some (JArr xs)) = True"
| "is_nonnull_object v = False"

text \<open>A field that must be there, and a field that is checked only if present.\<close>

fun required :: "(json \<Rightarrow> bool) \<Rightarrow> jsval \<Rightarrow> bool" where
  "required P None = False"
| "required P (Some x) = P x"

fun if_present :: "(json \<Rightarrow> bool) \<Rightarrow> jsval \<Rightarrow> bool" where
  "if_present P None = True"
| "if_present P (Some x) = P x"

definition is_format_literal :: "json \<Rightarrow> bool" where
  "is_format_literal x \<longleftrightarrow> x = JStr ''png'' \<or> x = JStr ''jpg'' \<or> x = JStr ''svg''"

definition spec_valid_args :: "jsval \<Rightarrow> bool" where
  "spec_valid_args v \<longleftrightarrow>
     is_nonnull_object v \<and>
     required is_string (js_get v ''prompt'') \<and>
     if_present is_string (js_get v ''model'') \<and>
     if_present is_string (js_get v ''outputDir'') \<and>
     if_present is_number (js_get v ''width'') \<and>
     if_present is_number (js_get v ''height'') \<and>
     if_present is_number (js_get v ''steps'') \<and>
     if_present is_number (js_get v ''n'') \<and>
     if_present is_format_literal (js_get v ''format'')"

section \<open>Strings and paths\<close>

text \<open>
  Template literals render the timestamp and the array index in decimal (a timestamp of
  \<open>Date.getTime()\<close> and an array index are integers far below \<open>10^21\<close>, where JavaScript
  switches to exponent notation).
\<close>

definition digit_char :: "nat \<Rightarrow> char" where
  "digit_char d = ''0123456789'' ! d"

function show_nat :: "nat \<Rightarrow> string" where
  "show_nat n = (if n < 10 then [digit_char n] else show_nat (n div 10) @ [digit_char (n mod 10)])"
  by pat_completeness auto
termination
  by (relation "measure id") auto

declare show_nat.simps [simp del]

definition show_int :: "int \<Rightarrow> string" where
  "show_int i = (if i < 0 then CHR ''-'' # show_nat (nat (- i)) else show_nat (nat i))"

text \<open>\<open>s.startsWith(p)\<close>, and \<open>s.replace(pat, rep)\<close> for a string pattern: only the first
  occurrence is replaced, and a string without the pattern is returned as it is.\<close>

definition starts_with :: "string \<Rightarrow> string \<Rightarrow> bool" where
  "starts_with s p \<longleftrightarrow> take (length p) s = p"

fun replace_first :: "string \<Rightarrow> string \<Rightarrow> string \<Rightarrow> string" where
  "replace_first pat rep [] = (if pat = [] then rep else [])"
| "replace_first pat rep (c # cs) =
     (if starts_with (c # cs) pat then rep @ drop (length pat) (c # cs)
      else c # replace_first pat rep cs)"

subsection \<open>Node's \<open>path\<close> module (POSIX)\<close>

text \<open>The segments of a path between its separators.\<close>

fun split_path :: "string \<Rightarrow> string list" where
  "split_path [] = [[]]"
| "split_path (c # cs) =
     (if c = CHR ''/'' then [] # split_path cs
      else (case split_path cs of [] \<Rightarrow> [[c]] | s # ss \<Rightarrow> (c # s) # ss))"

fun join_segments :: "string list \<Rightarrow> string" where
  "join_segments [] = []"
| "join_segments [s] = s"
| "join_segments (s # t # ss) = s @ CHR ''/'' # join_segments (t # ss)"

text \<open>
  \<open>normalizeString\<close>: empty segments and \<open>.\<close> are dropped, \<open>..\<close> removes the segment before it
  (and is kept, above the root of a relative path, when nothing is left to remove).
\<close>

definition normalize_step :: "bool \<Rightarrow> string list \<Rightarrow> string \<Rightarrow> string list" where
  "normalize_step allowAboveRoot res seg =
     (if seg = [] \<or> seg = ''.'' then res
      else if seg = ''..'' then
        (if res \<noteq> [] \<and> last res \<noteq> ''..'' then butlast res
         else if allowAboveRoot then res @ [''..''] else res)
      else res @ [seg])"

definition normalizeString :: "string \<Rightarrow> bool \<Rightarrow> string" where
  "normalizeString path allowAboveRoot =
     join_segments (foldl (normalize_step allowAboveRoot) [] (split_path path))"

definition path_normalize :: "string \<Rightarrow> string" where
  "path_normalize path =
     (if path = [] then ''.''
      else
        let isAbsolute = (hd path = CHR ''/'');
            trailingSeparator = (last path = CHR ''/'');
            p = normalizeString path (\<not> isAbsolute)
        in if p = [] then (if isAbsolute then ''/'' else if trailingSeparator then ''./'' else ''.'')
           else
             let p' = (if trailingSeparator then p @ ''/'' else p)
             in if isAbsolute then CHR ''/'' # p' else p')"

text \<open>\<open>path.join(a, b)\<close>.\<close>

definition path_join :: "string \<Rightarrow> string \<Rightarrow> string" where
  "path_join a b =
     (let joined = (if a = [] then b else if b = [] then a else a @ CHR ''/'' # b)
      in if joined = [] then ''.'' else path_normalize joined)"

text \<open>\<open>path.resolve(p)\<close> in the working directory \<open>cwd\<close>.\<close>

definition path_resolve :: "string \<Rightarrow> string \<Rightarrow> string" where
  "path_resolve cwd p =
     (let fromArg = (if p = [] then [] else p @ ''/'');
          resolvedPath = (if p \<noteq> [] \<and> hd p = CHR ''/'' then fromArg
                          else if cwd = [] then fromArg else cwd @ CHR ''/'' # fromArg);
          resolvedAbsolute = (resolvedPath \<noteq> [] \<and> hd resolvedPath = CHR ''/'');
          r = normalizeString resolvedPath (\<not> resolvedAbsolute)
      in if resolvedAbsolute then CHR ''/'' # r else if r \<noteq> [] then r else ''.'')"

section \<open>The world outside the handler\<close>

text \<open>
  A thrown value, with what \<open>error?.message\<close> reads from it (\<open>None\<close>: no message).
\<close>

datatype js_error = Thrown "string option"

text \<open>\<open>error?.message || 'Unknown error'\<close>.\<close>

fun error_text :: "js_error \<Rightarrow> string" where
  "error_text (Thrown m) = str_or m ''Unknown error''"

datatype mcp_error = MethodNotFound string | InvalidParams string | InternalError string

type_synonym bytes = "nat list"

text \<open>The parameters of \<open>together.images.create\<close>, and one element of \<open>response.data\<close>.\<close>

record api_request =
  rq_model :: string
  rq_prompt :: string
  rq_width :: jsnum
  rq_height :: jsnum
  rq_steps :: jsnum
  rq_n :: jsnum
  rq_response_format :: string

type_synonym api_image = "(string \<times> json) list"

text \<open>What \<open>sharp(...).metadata()\<close> reports of an image: each of them may be \<open>undefined\<close>.\<close>

record metadata =
  md_width :: "jsnum option"
  md_height :: "jsnum option"

datatype codec = PNG | JPEG nat

text \<open>
  The collaborators the handler calls and does not implement: the runtime's double
  arithmetic, the clock, the generation API, \<open>Buffer\<close>, the imaging library and the
  failures of the file system. Each is a parameter; a failure is an \<open>Inl\<close>.
  \<open>now i\<close> is the clock as the callback of image \<open>i\<close> reads it.
\<close>

record env =
  cwd :: string
  now :: "nat \<Rightarrow> int"
  num_div :: "jsnum \<Rightarrow> jsnum \<Rightarrow> jsnum"
  num_mul :: "jsnum \<Rightarrow> jsnum \<Rightarrow> jsnum"
  images_create :: "api_request \<Rightarrow> js_error + api_image list"
  buffer_from_base64 :: "jsval \<Rightarrow> js_error + bytes"
  sharp_metadata :: "bytes \<Rightarrow> js_error + metadata"
  sharp_resize :: "bytes \<Rightarrow> jsnum \<Rightarrow> jsnum \<Rightarrow> js_error + bytes"
  sharp_png :: "bytes \<Rightarrow> js_error + bytes"
  sharp_jpeg :: "nat \<Rightarrow> bytes \<Rightarrow> js_error + bytes"
  mkdir_error :: "string \<Rightarrow> js_error option"
  write_error :: "string \<Rightarrow> js_error option"
  missing_dir_error :: "string \<Rightarrow> js_error"
  missing_file_error :: "string \<Rightarrow> js_error"

text \<open>
  What the handler does to the outside is recorded as events, in the order of the model.
\<close>

datatype event =
    ApiCall api_request
  | Mkdir string
  | Resize nat jsnum jsnum
  | FileWrite string codec
  | ConsoleWarn string
  | ConsoleError js_error

record world =
  files :: "string \<rightharpoonup> bytes"
  dirs :: "string list"
  trace :: "event list"

definition log_event :: "event \<Rightarrow> world \<Rightarrow> world" where
  "log_event e w = w\<lparr>trace := trace w @ [e]\<rparr>"

text \<open>The events a run has added to the trace.\<close>

definition emitted :: "world \<Rightarrow> world \<Rightarrow> event list" where
  "emitted w w' = drop (length (trace w)) (trace w')"

definition exists_sync :: "world \<Rightarrow> string \<Rightarrow> bool" where
  "exists_sync w p \<longleftrightarrow> p \<in> set (dirs w) \<or> files w p \<noteq> None"

text \<open>
  The directory a path lies in: what stands before its last separator. Nothing stands there
  for a file in the root and for a relative name; those directories always exist.
\<close>

definition parent_dir :: "string \<Rightarrow> string" where
  "parent_dir p = rev (drop 1 (dropWhile (\<lambda>c. c \<noteq> CHR ''/'') (rev p)))"

definition dir_exists :: "world \<Rightarrow> string \<Rightarrow> bool" where
  "dir_exists w d \<longleftrightarrow> d = [] \<or> d \<in> set (dirs w)"

text \<open>The directories above a path: its proper prefixes that end before a separator.\<close>

fun parents :: "string \<Rightarrow> string \<Rightarrow> string list" where
  "parents acc [] = []"
| "parents acc (c # cs) =
     (if c = CHR ''/'' \<and> acc \<noteq> [] then [acc] else []) @ parents (acc @ [c]) cs"

text \<open>\<open>fs.mkdirSync(p, { recursive: true })\<close>.\<close>

definition mkdir_sync :: "env \<Rightarrow> string \<Rightarrow> world \<Rightarrow> (js_error + unit) \<times> world" where
  "mkdir_sync env p w =
     (case mkdir_error env p of
        Some e \<Rightarrow> (Inl e, w)
      | None \<Rightarrow> (Inr (), log_event (Mkdir p) (w\<lparr>dirs := p # parents [] p @ dirs w\<rparr>)))"

section \<open>The generation request handler\<close>

text \<open>Reads of the validated arguments: a field is of its type or \<open>undefined\<close>.\<close>

fun as_num :: "jsval \<Rightarrow> jsnum option" where
  "as_num (Some (JNum x)) = Some x"
| "as_num v = None"

fun as_str :: "jsval \<Rightarrow> string option" where
  "as_str (Some (JStr s)) = Some s"
| "as_str v = None"

definition requestWidth :: "jsval \<Rightarrow> jsnum" where
  "requestWidth args = num_or (as_num (js_get args ''width'')) (Fin 1024)"

definition requestHeight :: "jsval \<Rightarrow> jsnum" where
  "requestHeight args = num_or (as_num (js_get args ''height'')) (Fin 768)"

definition apiWidth :: "jsval \<Rightarrow> jsnum" where
  "apiWidth args = math_max (Fin 256) (requestWidth args)"

definition apiHeight :: "jsval \<Rightarrow> jsnum" where
  "apiHeight args = math_max (Fin 256) (requestHeight args)"

definition create_params :: "jsval \<Rightarrow> api_request" where
  "create_params args =
     \<lparr> rq_model = str_or (as_str (js_get args ''model'')) ''black-forest-labs/FLUX.1.1-pro'',
       rq_prompt = (case as_str (js_get args ''prompt'') of Some s \<Rightarrow> s | None \<Rightarrow> []),
       rq_width = apiWidth args,
       rq_height = apiHeight args,
       rq_steps = num_or (as_num (js_get args ''steps'')) (Fin 28),
       rq_n = num_or (as_num (js_get args ''n'')) (Fin 1),
       rq_response_format = ''base64'' \<rparr>"

definition output_dir :: "env \<Rightarrow> jsval \<Rightarrow> string" where
  "output_dir env args =
     (case as_str (js_get args ''outputDir'') of
        Some d \<Rightarrow> if d \<noteq> [] then path_resolve (cwd env) d else path_join (cwd env) ''output''
      | None \<Rightarrow> path_join (cwd env) ''output'')"

definition ensure_dir :: "env \<Rightarrow> string \<Rightarrow> world \<Rightarrow> (js_error + unit) \<times> world" where
  "ensure_dir env outputDir w =
     (if \<not> exists_sync w outputDir then mkdir_sync env outputDir w else (Inr (), w))"

subsection \<open>One image\<close>

text \<open>The target dimensions of the resize, assignment by assignment.\<close>

definition resize_targets :: "env \<Rightarrow> jsnum \<Rightarrow> jsnum \<Rightarrow> metadata \<Rightarrow> jsnum \<times> jsnum" where
  "resize_targets env reqW reqH md =
     (let originalWidth = num_or (md_width md) (Fin 0);
          originalHeight = num_or (md_height md) (Fin 0);
          aspectRatio = num_div env originalWidth originalHeight;
          targetWidth = reqW;
          targetHeight = reqH;
          (targetWidth, targetHeight) =
            (if num_lt reqW (Fin 256)
             then (reqW, math_round (num_div env reqW aspectRatio))
             else (targetWidth, targetHeight));
          (targetWidth, targetHeight) =
            (if num_lt reqH (Fin 256)
             then (math_round (num_mul env reqH aspectRatio), reqH)
             else (targetWidth, targetHeight))
      in (targetWidth, targetHeight))"

definition resize_step ::
  "env \<Rightarrow> jsnum \<Rightarrow> jsnum \<Rightarrow> nat \<Rightarrow> bytes \<Rightarrow> world \<Rightarrow> (js_error + bytes) \<times> world" where
  "resize_step env reqW reqH index buffer w =
     (if num_lt reqW (Fin 256) \<or> num_lt reqH (Fin 256) then
        (case sharp_metadata env buffer of
           Inl e \<Rightarrow> (Inl e, w)
         | Inr md \<Rightarrow>
             (case resize_targets env reqW reqH md of
                (targetWidth, targetHeight) \<Rightarrow>
                  (sharp_resize env buffer targetWidth targetHeight,
                   log_event (Resize index targetWidth targetHeight) w)))
      else (Inr buffer, w))"

definition encode :: "env \<Rightarrow> codec \<Rightarrow> bytes \<Rightarrow> js_error + bytes" where
  "encode env c buffer = (case c of PNG \<Rightarrow> sharp_png env buffer | JPEG q \<Rightarrow> sharp_jpeg env q buffer)"

text \<open>
  \<open>sharpInstance.png().toFile(path)\<close> and \<open>.jpeg({ quality }).toFile(path)\<close>. The file
  system creates no directory for a file: the write fails where the directory is missing.
\<close>

definition to_file ::
  "env \<Rightarrow> codec \<Rightarrow> bytes \<Rightarrow> string \<Rightarrow> world \<Rightarrow> (js_error + unit) \<times> world" where
  "to_file env c buffer path w =
     (case encode env c buffer of
        Inl e \<Rightarrow> (Inl e, w)
      | Inr data \<Rightarrow>
          if \<not> dir_exists w (parent_dir path) then (Inl (missing_dir_error env path), w)
          else
            (case write_error env path of
               Some e \<Rightarrow> (Inl e, w)
             | None \<Rightarrow>
                 (Inr (), log_event (FileWrite path c) (w\<lparr>files := (files w)(path \<mapsto> data)\<rparr>))))"

text \<open>The \<open>switch (format)\<close>; it has no default case.\<close>

definition persist ::
  "env \<Rightarrow> string \<Rightarrow> bytes \<Rightarrow> string \<Rightarrow> world \<Rightarrow> (js_error + unit) \<times> world" where
  "persist env format buffer filepath w =
     (if format = ''png'' then to_file env PNG buffer filepath w
      else if format = ''jpg'' then to_file env (JPEG 90) buffer filepath w
      else if format = ''svg'' then
        (case to_file env PNG buffer (replace_first ''.svg'' ''.png'' filepath) w of
           (Inl e, w1) \<Rightarrow> (Inl e, w1)
         | (Inr u, w1) \<Rightarrow> (Inr (), log_event (ConsoleWarn ''SVG output is not fully supported yet'') w1))
      else (Inr (), w))"

text \<open>\<open>sharp(filepath).metadata()\<close>: the file is read from the disk.\<close>

definition read_metadata :: "env \<Rightarrow> string \<Rightarrow> world \<Rightarrow> js_error + metadata" where
  "read_metadata env path w =
     (case files w path of
        None \<Rightarrow> Inl (missing_file_error env path)
      | Some data \<Rightarrow> sharp_metadata env data)"

text \<open>
  One entry of the response: the fields spread from the API's element (\<open>...result\<close>, less the
  three keys written after it), then \<open>filepath\<close>, \<open>filename\<close> and \<open>dimensions\<close>.
\<close>

record processed =
  api_fields :: "(string \<times> json) list"
  filepath :: string
  filename :: string
  original :: "jsnum \<times> jsnum"
  final :: "jsnum option \<times> jsnum option"

definition spread :: "api_image \<Rightarrow> (string \<times> json) list" where
  "spread result = filter (\<lambda>kv. fst kv \<notin> {''filepath'', ''filename'', ''dimensions''}) result"

definition image_format :: "jsval \<Rightarrow> string" where
  "image_format args = str_or (as_str (js_get args ''format'')) ''png''"

definition image_filename :: "int \<Rightarrow> nat \<Rightarrow> string \<Rightarrow> string" where
  "image_filename timestamp index format =
     ''image_'' @ show_int timestamp @ ''_'' @ show_nat index @ ''.'' @ format"

definition process_image ::
  "env \<Rightarrow> jsval \<Rightarrow> string \<Rightarrow> nat \<times> api_image \<Rightarrow> world \<Rightarrow> (js_error + processed) \<times> world" where
  "process_image env args outputDir ir w =
     (case ir of (index, result) \<Rightarrow>
      (case buffer_from_base64 env (map_of result ''b64_json'') of
         Inl e \<Rightarrow> (Inl e, w)
       | Inr decoded \<Rightarrow>
          (case resize_step env (requestWidth args) (requestHeight args) index decoded w of
             (Inl e, w1) \<Rightarrow> (Inl e, w1)
           | (Inr buffer, w1) \<Rightarrow>
               (let timestamp = now env index;
                    format = image_format args;
                    fname = image_filename timestamp index format;
                    fpath = path_join outputDir fname
                in case persist env format buffer fpath w1 of
                     (Inl e, w2) \<Rightarrow> (Inl e, w2)
                   | (Inr u, w2) \<Rightarrow>
                       (case read_metadata env fpath w2 of
                          Inl e \<Rightarrow> (Inl e, w2)
                        | Inr m \<Rightarrow>
                            (Inr \<lparr> api_fields = spread result, filepath = fpath,
                                   filename = fname,
                                   original = (apiWidth args, apiHeight args),
                                   final = (md_width m, md_height m) \<rparr>, w2))))))"

subsection \<open>All images, and the call\<close>

text \<open>
  \<open>Promise.all(response.data.map(async (result, index) => ...))\<close>. Every callback runs to its
  end, whatever happens to the others, and the callbacks touch different files; the model
  runs them one after the other in the order of the array. The promise is fulfilled with all
  the values in that order, or rejected with one error (the model takes the one of the lowest
  index) and no value.
\<close>

fun process_all ::
  "env \<Rightarrow> jsval \<Rightarrow> string \<Rightarrow> (nat \<times> api_image) list \<Rightarrow> world
     \<Rightarrow> (js_error + processed) list \<times> world" where
  "process_all env args outputDir [] w = ([], w)"
| "process_all env args outputDir (ir # rest) w =
     (case process_image env args outputDir ir w of
        (r, w1) \<Rightarrow>
          (case process_all env args outputDir rest w1 of
             (rs, w2) \<Rightarrow> (r # rs, w2)))"

fun promise_all :: "(js_error + 'a) list \<Rightarrow> js_error + 'a list" where
  "promise_all [] = Inr []"
| "promise_all (Inl e # rs) = Inl e"
| "promise_all (Inr x # rs) = (case promise_all rs of Inl e \<Rightarrow> Inl e | Inr xs \<Rightarrow> Inr (x # xs))"

text \<open>The body of the \<open>try\<close> block.\<close>

definition generate :: "env \<Rightarrow> jsval \<Rightarrow> world \<Rightarrow> (js_error + processed list) \<times> world" where
  "generate env args w =
     (let w1 = log_event (ApiCall (create_params args)) w
      in case images_create env (create_params args) of
           Inl e \<Rightarrow> (Inl e, w1)
         | Inr data \<Rightarrow>
             (let outputDir = output_dir env args
              in case ensure_dir env outputDir w1 of
                   (Inl e, w2) \<Rightarrow> (Inl e, w2)
                 | (Inr u, w2) \<Rightarrow>
                     (case process_all env args outputDir (enumerate 0 data) w2 of
                        (outcomes, w3) \<Rightarrow> (promise_all outcomes, w3))))"

text \<open>
  The handler of \<open>CallToolRequestSchema\<close>. Its result is the thrown \<open>McpError\<close> or the list
  that the response carries as \<open>JSON.stringify(results, null, 2)\<close>.
\<close>

record call_request =
  tool_name :: string
  arguments :: jsval

definition handle_call ::
  "env \<Rightarrow> call_request \<Rightarrow> world \<Rightarrow> (mcp_error + processed list) \<times> world" where
  "handle_call env req w =
     (if tool_name req \<noteq> ''generate_image'' then
        (Inl (MethodNotFound (''Unknown tool: '' @ tool_name req)), w)
      else if \<not> truthy (arguments req) \<or> \<not> isValidGenerateImageArgs (arguments req) then
        (Inl (InvalidParams ''Invalid generate_image arguments''), w)
      else
        (case generate env (arguments req) w of
           (Inl e, w1) \<Rightarrow>
             (Inl (InternalError (''Image generation failed: '' @ error_text e)),
              log_event (ConsoleError e) w1)
         | (Inr results, w1) \<Rightarrow> (Inr results, w1)))"

section \<open>Auxiliary notions for the statements\<close>

text \<open>The resize calls among a list of events: image index, target width, target height.\<close>

fun resizes :: "event list \<Rightarrow> (nat \<times> jsnum \<times> jsnum) list" where
  "resizes [] = []"
| "resizes (Resize i tw th # evs) = (i, tw, th) # resizes evs"
| "resizes (e # evs) = resizes evs"

text \<open>The paths written among a list of events.\<close>

fun writes :: "event list \<Rightarrow> string list" where
  "writes [] = []"
| "writes (FileWrite p c # evs) = p # writes evs"
| "writes (e # evs) = writes evs"

text \<open>
  \<open>effects w w' evs\<close>: from \<open>w\<close> to \<open>w'\<close> the events \<open>evs\<close> were added, the files written
  among them exist, and every other file is as it was.
\<close>

definition effects :: "world \<Rightarrow> world \<Rightarrow> event list \<Rightarrow> bool" where
  "effects w w' evs \<longleftrightarrow>
     trace w' = trace w @ evs \<and>
     (\<forall>q. q \<notin> set (writes evs) \<longrightarrow> files w' q = files w q) \<and>
     (\<forall>q. q \<in> set (writes evs) \<longrightarrow> files w' q \<noteq> None)"

text \<open>The resize call that the callback of one image makes, if it makes one.\<close>

definition image_resizes :: "env \<Rightarrow> jsval \<Rightarrow> nat \<times> api_image \<Rightarrow> (nat \<times> jsnum \<times> jsnum) list" where
  "image_resizes env args ir =
     (case buffer_from_base64 env (map_of (snd ir) ''b64_json'') of
        Inl e \<Rightarrow> []
      | Inr decoded \<Rightarrow>
          if num_lt (requestWidth args) (Fin 256) \<or> num_lt (requestHeight args) (Fin 256) then
            (case sharp_metadata env decoded of
               Inl e \<Rightarrow> []
             | Inr md \<Rightarrow> [(fst ir, resize_targets env (requestWidth args) (requestHeight args) md)])
          else [])"

text \<open>The \<open>filepath\<close> of image \<open>i\<close>.\<close>

definition image_path :: "env \<Rightarrow> jsval \<Rightarrow> string \<Rightarrow> nat \<Rightarrow> string" where
  "image_path env args dir i = path_join dir (image_filename (now env i) i (image_format args))"

text \<open>A file name: not empty, without a separator, and neither \<open>.\<close> nor \<open>..\<close>.\<close>

definition plain_name :: "string \<Rightarrow> bool" where
  "plain_name s \<longleftrightarrow> s \<noteq> [] \<and> CHR ''/'' \<notin> set s \<and> s \<noteq> ''.'' \<and> s \<noteq> ''..''"

text \<open>An error that one of the collaborators has raised.\<close>

definition raised_by :: "env \<Rightarrow> js_error \<Rightarrow> bool" where
  "raised_by env e \<longleftrightarrow>
     (\<exists>rq. images_create env rq = Inl e) \<or>
     (\<exists>p. mkdir_error env p = Some e) \<or>
     (\<exists>v. buffer_from_base64 env v = Inl e) \<or>
     (\<exists>b. sharp_metadata env b = Inl e) \<or>
     (\<exists>b tw th. sharp_resize env b tw th = Inl e) \<or>
     (\<exists>b. sharp_png env b = Inl e) \<or>
     (\<exists>q b. sharp_jpeg env q b = Inl e) \<or>
     (\<exists>p. write_error env p = Some e) \<or>
     (\<exists>p. missing_dir_error env p = e) \<or>
     (\<exists>p. missing_file_error env p = e)"

fun is_success :: "mcp_error + 'a \<Rightarrow> bool" where
  "is_success (Inr x) = True"
| "is_success r = False"

fun is_invalid_params :: "mcp_error + 'a \<Rightarrow> bool" where
  "is_invalid_params (Inl (InvalidParams m)) = True"
| "is_invalid_params r = False"

fun is_internal_error :: "mcp_error + 'a \<Rightarrow> bool" where
  "is_internal_error (Inl (InternalError m)) = True"
| "is_internal_error r = False"

text \<open>
  The dimension sent to the API for a \<open>width\<close> or \<open>height\<close> argument, case by case:
  an absent argument, and one that is \<open>0\<close>, \<open>-0\<close> or \<open>NaN\<close>, is replaced by the default \<open>d\<close>
  and is not raised to 256; every other number is raised to at least 256.
\<close>

fun expected_api_dim :: "jsval \<Rightarrow> rat \<Rightarrow> jsnum" where
  "expected_api_dim (Some (JNum (Fin q))) d = (if q = 0 then Fin d else Fin (max 256 q))"
| "expected_api_dim (Some (JNum PInf)) d = PInf"
| "expected_api_dim (Some (JNum NInf)) d = Fin 256"
| "expected_api_dim v d = Fin d"

text \<open>
  The dimension the resize decision looks at: the argument, or the default \<open>d\<close> when the
  argument is absent, \<open>0\<close>, \<open>-0\<close> or \<open>NaN\<close>.
\<close>

fun effective_dim :: "jsval \<Rightarrow> rat \<Rightarrow> jsnum" where
  "effective_dim (Some (JNum (Fin q))) d = (if q = 0 then Fin d else Fin q)"
| "effective_dim (Some (JNum PInf)) d = PInf"
| "effective_dim (Some (JNum NInf)) d = NInf"
| "effective_dim v d = Fin d"

section \<open>A sample environment\<close>

text \<open>
  An environment to run the model in: the API answers with two images of 1024 by 512, an
  image buffer is its width and height, an encoded file carries a tag in front, the
  arithmetic is exact (as it is in doubles on the values used here), and nothing fails
  but a read of a missing file, a write into a missing directory and a resize to a size that
  is no positive integer.
\<close>

fun exact_div :: "jsnum \<Rightarrow> jsnum \<Rightarrow> jsnum" where
  "exact_div (Fin p) (Fin q) =
     (if q = 0 then (if p = 0 then NaN else if 0 < p then PInf else NInf) else Fin (p / q))"
| "exact_div a b = NaN"

fun exact_mul :: "jsnum \<Rightarrow> jsnum \<Rightarrow> jsnum" where
  "exact_mul (Fin p) (Fin q) = Fin (p * q)"
| "exact_mul a b = NaN"

fun sample_decode :: "jsval \<Rightarrow> js_error + bytes" where
  "sample_decode (Some (JStr s)) = Inr [1024, 512]"
| "sample_decode v = Inl (Thrown (Some ''The first argument must be of type string''))"

fun sample_metadata :: "bytes \<Rightarrow> js_error + metadata" where
  "sample_metadata [w, h] =
     Inr \<lparr>md_width = Some (Fin (of_nat w)), md_height = Some (Fin (of_nat h))\<rparr>"
| "sample_metadata [t, w, h] =
     Inr \<lparr>md_width = Some (Fin (of_nat w)), md_height = Some (Fin (of_nat h))\<rparr>"
| "sample_metadata b = Inl (Thrown (Some ''Input buffer contains unsupported image format''))"

fun as_size :: "jsnum \<Rightarrow> nat option" where
  "as_size (Fin q) = (if 0 < q \<and> of_int \<lfloor>q\<rfloor> = q then Some (nat \<lfloor>q\<rfloor>) else None)"
| "as_size x = None"

definition sample_resize :: "bytes \<Rightarrow> jsnum \<Rightarrow> jsnum \<Rightarrow> js_error + bytes" where
  "sample_resize b tw th =
     (case as_size tw of
        None \<Rightarrow> Inl (Thrown (Some ''Expected positive integer for width''))
      | Some x \<Rightarrow>
          (case as_size th of
             None \<Rightarrow> Inl (Thrown (Some ''Expected positive integer for height''))
           | Some y \<Rightarrow> Inr [x, y]))"

definition sample_images :: "api_image list" where
  "sample_images =
     [[(''b64_json'', JStr ''aW1hZ2Uw''), (''index'', JNum (Fin 0))],
      [(''b64_json'', JStr ''aW1hZ2Ux''), (''index'', JNum (Fin 1))]]"

definition sample_env :: env where
  "sample_env =
     \<lparr> cwd = ''/srv/app'',
       now = (\<lambda>i. 1700000000000 + int i),
       num_div = exact_div,
       num_mul = exact_mul,
       images_create = (\<lambda>rq. Inr sample_images),
       buffer_from_base64 = sample_decode,
       sharp_metadata = sample_metadata,
       sharp_resize = sample_resize,
       sharp_png = (\<lambda>b. Inr (80 # b)),
       sharp_jpeg = (\<lambda>q b. Inr (74 # b)),
       mkdir_error = (\<lambda>p. None),
       write_error = (\<lambda>p. None),
       missing_dir_error = (\<lambda>p. Thrown (Some (''unable to open for write: '' @ p))),
       missing_file_error = (\<lambda>p. Thrown (Some (''Input file is missing: '' @ p))) \<rparr>"

definition empty_world :: world where
  "empty_world = \<lparr> files = Map.empty, dirs = [], trace = [] \<rparr>"

definition call_with :: "(string \<times> json) list \<Rightarrow> call_request" where
  "call_with fs = \<lparr> tool_name = ''generate_image'', arguments = Some (JObj fs) \<rparr>"

section \<open>Validator: proofs\<close>

lemma typeof_string_iff: "typeof v = ''string'' \<longleftrightarrow> required is_string v"
  by (cases v rule: typeof.cases) simp_all

lemma typeof_number_iff: "typeof v = ''number'' \<longleftrightarrow> required is_number v"
  by (cases v rule: typeof.cases) simp_all

lemma typeof_object_iff: "typeof v = ''object'' \<and> v \<noteq> Some JNull \<longleftrightarrow> is_nonnull_object v"
  by (cases v rule: typeof.cases) simp_all

lemma optional_iff: "(v = None \<or> required P v) \<longleftrightarrow> if_present P v"
  by (cases v) simp_all

lemma includes_format_iff:
  "(v = None \<or> js_includes [''png'', ''jpg'', ''svg''] v) \<longleftrightarrow> if_present is_format_literal v"
  by (cases v rule: typeof.cases) (auto simp: is_format_literal_def)

text \<open>
  C7. The validator accepts exactly the non-null objects whose \<open>prompt\<close> is a string, whose
  \<open>model\<close> and \<open>outputDir\<close> are strings if present, whose \<open>width\<close>, \<open>height\<close>, \<open>steps\<close> and \<open>n\<close>
  are numbers (of any value) if present, and whose \<open>format\<close> is one of the three literals if
  present; every other value is rejected.
\<close>

theorem validator_meets_contract: "isValidGenerateImageArgs v = spec_valid_args v"
proof -
  have "isValidGenerateImageArgs v \<longleftrightarrow>
      (typeof v = ''object'' \<and> v \<noteq> Some JNull) \<and>
      typeof (js_get v ''prompt'') = ''string'' \<and>
      (js_get v ''model'' = None \<or> typeof (js_get v ''model'') = ''string'') \<and>
      (js_get v ''outputDir'' = None \<or> typeof (js_get v ''outputDir'') = ''string'') \<and>
      (js_get v ''width'' = None \<or> typeof (js_get v ''width'') = ''number'') \<and>
      (js_get v ''height'' = None \<or> typeof (js_get v ''height'') = ''number'') \<and>
      (js_get v ''steps'' = None \<or> typeof (js_get v ''steps'') = ''number'') \<and>
      (js_get v ''n'' = None \<or> typeof (js_get v ''n'') = ''number'') \<and>
      (js_get v ''format'' = None \<or> js_includes [''png'', ''jpg'', ''svg''] (js_get v ''format''))"
    unfolding isValidGenerateImageArgs_def by blast
  then show ?thesis
    unfolding spec_valid_args_def typeof_object_iff typeof_string_iff typeof_number_iff
      optional_iff includes_format_iff .
qed

section \<open>Effects of the steps\<close>

lemma trace_log_event [simp]: "trace (log_event e w) = trace w @ [e]"
  by (simp add: log_event_def)

lemma files_log_event [simp]: "files (log_event e w) = files w"
  by (simp add: log_event_def)

lemma dirs_log_event [simp]: "dirs (log_event e w) = dirs w"
  by (simp add: log_event_def)

lemma resizes_append [simp]: "resizes (xs @ ys) = resizes xs @ resizes ys"
  by (induction xs rule: resizes.induct) simp_all

lemma writes_append [simp]: "writes (xs @ ys) = writes xs @ writes ys"
  by (induction xs rule: writes.induct) simp_all

lemma set_resizes: "(i, tw, th) \<in> set (resizes evs) \<longleftrightarrow> Resize i tw th \<in> set evs"
  by (induction evs rule: resizes.induct) auto

lemma set_writes: "p \<in> set (writes evs) \<longleftrightarrow> (\<exists>c. FileWrite p c \<in> set evs)"
  by (induction evs rule: writes.induct) auto

lemma effects_refl: "effects w w []"
  by (simp add: effects_def)

lemma effects_trans:
  assumes "effects w w1 e1" and "effects w1 w2 e2"
  shows "effects w w2 (e1 @ e2)"
  using assms unfolding effects_def by (auto; metis)

lemma effects_emitted: "effects w w' evs \<Longrightarrow> emitted w w' = evs"
  by (simp add: effects_def emitted_def)

lemma effects_log: "writes [e] = [] \<Longrightarrow> effects w (log_event e w) [e]"
  by (simp add: effects_def)

lemma effects_keeps_files: "effects w w' evs \<Longrightarrow> files w q \<noteq> None \<Longrightarrow> files w' q \<noteq> None"
  unfolding effects_def by metis

lemma to_file_cases:
  assumes "to_file env c b p w = (r, w')"
  shows "(\<exists>e. r = Inl e \<and> w' = w) \<or>
         (\<exists>data. encode env c b = Inr data \<and> write_error env p = None \<and> r = Inr () \<and>
            w' = log_event (FileWrite p c) (w\<lparr>files := (files w)(p \<mapsto> data)\<rparr>))"
  using assms by (auto simp: to_file_def split: sum.splits option.splits if_splits)

lemma to_file_effects:
  assumes "to_file env c b p w = (r, w')"
  shows "\<exists>evs. effects w w' evs \<and> resizes evs = [] \<and> set (writes evs) \<subseteq> {p} \<and> dirs w' = dirs w"
  using to_file_cases [OF assms]
proof (elim disjE exE conjE)
  fix e assume "r = Inl e" "w' = w"
  then show ?thesis using effects_refl by fastforce
next
  fix data assume "w' = log_event (FileWrite p c) (w\<lparr>files := (files w)(p \<mapsto> data)\<rparr>)"
  then have "effects w w' [FileWrite p c]"
    by (simp add: effects_def)
  moreover have "dirs w' = dirs w" using \<open>w' = _\<close> by simp
  ultimately show ?thesis by fastforce
qed

lemma persist_effects:
  assumes "persist env fmt b fp w = (r, w')"
  shows "\<exists>evs. effects w w' evs \<and> resizes evs = [] \<and>
           set (writes evs) \<subseteq> {fp, replace_first ''.svg'' ''.png'' fp} \<and> dirs w' = dirs w"
proof -
  consider (png) "fmt = ''png''" | (jpg) "fmt \<noteq> ''png''" "fmt = ''jpg''"
    | (svg) "fmt \<noteq> ''png''" "fmt \<noteq> ''jpg''" "fmt = ''svg''"
    | (other) "fmt \<noteq> ''png''" "fmt \<noteq> ''jpg''" "fmt \<noteq> ''svg''"
    by blast
  then show ?thesis
  proof cases
    case png
    with assms have "to_file env PNG b fp w = (r, w')" by (simp add: persist_def)
    from to_file_effects [OF this] show ?thesis by fastforce
  next
    case jpg
    with assms have "to_file env (JPEG 90) b fp w = (r, w')" by (simp add: persist_def)
    from to_file_effects [OF this] show ?thesis by fastforce
  next
    case svg
    obtain r1 w1 where tf: "to_file env PNG b (replace_first ''.svg'' ''.png'' fp) w = (r1, w1)"
      by fastforce
    from to_file_effects [OF tf] obtain evs where
      evs: "effects w w1 evs" "resizes evs = []"
        "set (writes evs) \<subseteq> {replace_first ''.svg'' ''.png'' fp}" "dirs w1 = dirs w"
      by blast
    show ?thesis
    proof (cases r1)
      case (Inl e)
      with assms svg tf have "w' = w1" by (simp add: persist_def)
      with evs show ?thesis by fastforce
    next
      case (Inr u)
      with assms svg tf have w': "w' = log_event (ConsoleWarn ''SVG output is not fully supported yet'') w1"
        by (simp add: persist_def)
      have "effects w1 w' [ConsoleWarn ''SVG output is not fully supported yet'']"
        unfolding w' by (rule effects_log) simp
      from effects_trans [OF evs(1) this] evs(2,3,4) w' show ?thesis
        by (intro exI [of _ "evs @ [ConsoleWarn ''SVG output is not fully supported yet'']"]) auto
    qed
  next
    case other
    with assms have "w' = w" by (simp add: persist_def)
    then show ?thesis using effects_refl by fastforce
  qed
qed

lemma resize_step_effects:
  assumes "resize_step env rw rh i b w = (r, w')"
  shows "\<exists>evs. effects w w' evs \<and> writes evs = [] \<and> files w' = files w \<and> dirs w' = dirs w \<and>
           resizes evs =
             (if num_lt rw (Fin 256) \<or> num_lt rh (Fin 256) then
                (case sharp_metadata env b of Inl e \<Rightarrow> []
                 | Inr md \<Rightarrow> [(i, resize_targets env rw rh md)])
              else [])"
proof (cases "num_lt rw (Fin 256) \<or> num_lt rh (Fin 256)")
  case False
  with assms have "w' = w" by (simp add: resize_step_def)
  with False show ?thesis using effects_refl by fastforce
next
  case True
  show ?thesis
  proof (cases "sharp_metadata env b")
    case (Inl e)
    with True assms have "w' = w" by (simp add: resize_step_def)
    with True Inl show ?thesis using effects_refl by fastforce
  next
    case (Inr md)
    obtain tw th where t: "resize_targets env rw rh md = (tw, th)" by fastforce
    with True Inr assms have w': "w' = log_event (Resize i tw th) w"
      by (simp add: resize_step_def)
    have "effects w w' [Resize i tw th]" unfolding w' by (rule effects_log) simp
    with True Inr t w' show ?thesis
      by (intro exI [of _ "[Resize i tw th]"]) simp
  qed
qed


lemma process_image_effects:
  assumes "process_image env args dir (i, result) w = (r, w')"
  shows "\<exists>evs. effects w w' evs \<and> resizes evs = image_resizes env args (i, result) \<and>
           set (writes evs) \<subseteq> {image_path env args dir i,
                                replace_first ''.svg'' ''.png'' (image_path env args dir i)} \<and>
           dirs w' = dirs w"
proof (cases "buffer_from_base64 env (map_of result ''b64_json'')")
  case (Inl e)
  with assms have "w' = w" by (simp add: process_image_def)
  with Inl show ?thesis using effects_refl by (fastforce simp: image_resizes_def)
next
  case (Inr decoded)
  obtain r1 w1 where rs: "resize_step env (requestWidth args) (requestHeight args) i decoded w = (r1, w1)"
    by fastforce
  have ir: "image_resizes env args (i, result) =
      (if num_lt (requestWidth args) (Fin 256) \<or> num_lt (requestHeight args) (Fin 256) then
         (case sharp_metadata env decoded of Inl e \<Rightarrow> []
          | Inr md \<Rightarrow> [(i, resize_targets env (requestWidth args) (requestHeight args) md)])
       else [])"
    using Inr by (simp add: image_resizes_def split: sum.splits)
  from resize_step_effects [OF rs] obtain ev1 where
    ev1: "effects w w1 ev1" "writes ev1 = []" "dirs w1 = dirs w"
      "resizes ev1 = image_resizes env args (i, result)"
    unfolding ir by blast
  show ?thesis
  proof (cases r1)
    case (Inl e)
    with assms Inr rs have "w' = w1" by (simp add: process_image_def)
    with ev1 show ?thesis by fastforce
  next
    case buf: (Inr buffer)
    obtain r2 w2 where ps: "persist env (image_format args) buffer (image_path env args dir i) w1 = (r2, w2)"
      by fastforce
    from persist_effects [OF ps] obtain ev2 where
      ev2: "effects w1 w2 ev2" "resizes ev2 = []"
        "set (writes ev2) \<subseteq> {image_path env args dir i,
                                replace_first ''.svg'' ''.png'' (image_path env args dir i)}"
        "dirs w2 = dirs w1"
      by blast
    from assms Inr rs buf ps have "w' = w2"
      by (auto simp: process_image_def image_path_def Let_def split: sum.splits)
    with effects_trans [OF ev1(1) ev2(1)] ev1 ev2 show ?thesis
      by (intro exI [of _ "ev1 @ ev2"]) auto
  qed
qed

lemma process_image_result:
  assumes "process_image env args dir (i, result) w = (Inr p, w')"
  shows "api_fields p = spread result \<and>
         filename p = image_filename (now env i) i (image_format args) \<and>
         filepath p = image_path env args dir i \<and>
         original p = (apiWidth args, apiHeight args)"
  using assms
  by (auto simp: process_image_def image_path_def Let_def split: sum.splits prod.splits)

lemma process_image_resized:
  assumes "process_image env args dir (i, result) w = (Inr p, w')"
    and "num_lt (requestWidth args) (Fin 256) \<or> num_lt (requestHeight args) (Fin 256)"
  shows "\<exists>t. image_resizes env args (i, result) = [(i, t)]"
  using assms
  by (auto simp: process_image_def image_resizes_def resize_step_def Let_def
      split: sum.splits prod.splits)

lemma process_image_svg_fails:
  assumes fmt: "image_format args = ''svg''"
    and absent: "files w (image_path env args dir i) = None"
    and moved: "replace_first ''.svg'' ''.png'' (image_path env args dir i) \<noteq> image_path env args dir i"
  shows "\<exists>e. fst (process_image env args dir (i, result) w) = Inl e"
proof (cases "buffer_from_base64 env (map_of result ''b64_json'')")
  case (Inl e)
  then show ?thesis by (simp add: process_image_def)
next
  case (Inr decoded)
  obtain r1 w1 where rs: "resize_step env (requestWidth args) (requestHeight args) i decoded w = (r1, w1)"
    by fastforce
  from resize_step_effects [OF rs] have f1: "files w1 = files w" by blast
  show ?thesis
  proof (cases r1)
    case (Inl e)
    with Inr rs show ?thesis by (simp add: process_image_def)
  next
    case buf: (Inr buffer)
    let ?fp = "image_path env args dir i"
    obtain r2 w2 where tf: "to_file env PNG buffer (replace_first ''.svg'' ''.png'' ?fp) w1 = (r2, w2)"
      by fastforce
    from to_file_cases [OF tf] show ?thesis
    proof (elim disjE exE conjE)
      fix e assume "r2 = Inl e" "w2 = w1"
      with Inr rs buf tf fmt show ?thesis
        by (simp add: process_image_def persist_def image_path_def Let_def)
    next
      fix data
      assume r2: "r2 = Inr ()"
        and w2: "w2 = log_event (FileWrite (replace_first ''.svg'' ''.png'' ?fp) PNG)
                   (w1\<lparr>files := (files w1)(replace_first ''.svg'' ''.png'' ?fp \<mapsto> data)\<rparr>)"
      have "files w2 ?fp = None" using w2 f1 absent moved by simp
      then have "read_metadata env ?fp (log_event (ConsoleWarn ''SVG output is not fully supported yet'') w2)
                  = Inl (missing_file_error env ?fp)"
        by (simp add: read_metadata_def)
      with Inr rs buf tf fmt r2 show ?thesis
        by (simp add: process_image_def persist_def image_path_def Let_def)
    qed
  qed
qed

lemma process_all_length:
  "process_all env args dir irs w = (rs, w') \<Longrightarrow> length rs = length irs"
  by (induction irs arbitrary: w rs) (auto split: prod.splits)

lemma process_all_effects:
  "process_all env args dir irs w = (rs, w') \<Longrightarrow>
     \<exists>evs. effects w w' evs \<and> resizes evs = concat (map (image_resizes env args) irs) \<and>
       dirs w' = dirs w \<and>
       set (writes evs) \<subseteq> (\<Union>ir \<in> set irs. {image_path env args dir (fst ir),
                                replace_first ''.svg'' ''.png'' (image_path env args dir (fst ir))})"
proof (induction irs arbitrary: w rs w')
  case Nil
  then show ?case using effects_refl by fastforce
next
  case (Cons ir irs)
  obtain i result where ir: "ir = (i, result)" by (cases ir)
  obtain r w1 where p1: "process_image env args dir (i, result) w = (r, w1)" by fastforce
  obtain rs' w2 where p2: "process_all env args dir irs w1 = (rs', w2)" by fastforce
  from Cons.prems ir p1 p2 have w': "w' = w2" by simp
  from process_image_effects [OF p1] obtain ev1 where
    ev1: "effects w w1 ev1" "resizes ev1 = image_resizes env args (i, result)"
      "set (writes ev1) \<subseteq> {image_path env args dir i,
                                replace_first ''.svg'' ''.png'' (image_path env args dir i)}"
      "dirs w1 = dirs w"
    by blast
  from Cons.IH [OF p2] obtain ev2 where
    ev2: "effects w1 w2 ev2" "resizes ev2 = concat (map (image_resizes env args) irs)"
      "dirs w2 = dirs w1"
      "set (writes ev2) \<subseteq> (\<Union>ir \<in> set irs. {image_path env args dir (fst ir),
                                replace_first ''.svg'' ''.png'' (image_path env args dir (fst ir))})"
    by blast
  have "effects w w' (ev1 @ ev2)" using effects_trans [OF ev1(1) ev2(1)] w' by simp
  moreover have "resizes (ev1 @ ev2) = concat (map (image_resizes env args) (ir # irs))"
    using ev1(2) ev2(2) ir by simp
  moreover have "dirs w' = dirs w" using ev1(4) ev2(3) w' by simp
  moreover have "set (writes (ev1 @ ev2)) \<subseteq> (\<Union>ir \<in> set (ir # irs). {image_path env args dir (fst ir),
                                replace_first ''.svg'' ''.png'' (image_path env args dir (fst ir))})"
    using ev1(3) ev2(4) ir by auto
  ultimately show ?case by blast
qed

lemma process_all_results:
  "process_all env args dir irs w = (rs, w') \<Longrightarrow> k < length irs \<Longrightarrow> rs ! k = Inr p \<Longrightarrow>
     api_fields p = spread (snd (irs ! k)) \<and>
     filename p = image_filename (now env (fst (irs ! k))) (fst (irs ! k)) (image_format args) \<and>
     filepath p = image_path env args dir (fst (irs ! k)) \<and>
     original p = (apiWidth args, apiHeight args) \<and>
     (num_lt (requestWidth args) (Fin 256) \<or> num_lt (requestHeight args) (Fin 256) \<longrightarrow>
        (\<exists>t. image_resizes env args (irs ! k) = [(fst (irs ! k), t)]))"
proof (induction irs arbitrary: w rs k w')
  case Nil
  then show ?case by simp
next
  case (Cons ir irs)
  obtain i result where ir: "ir = (i, result)" by (cases ir)
  obtain r w1 where p1: "process_image env args dir (i, result) w = (r, w1)" by fastforce
  obtain rs' w2 where p2: "process_all env args dir irs w1 = (rs', w2)" by fastforce
  from Cons.prems(1) ir p1 p2 have rs: "rs = r # rs'" by simp
  show ?case
  proof (cases k)
    case 0
    with rs Cons.prems(3) have "r = Inr p" by simp
    with p1 have "process_image env args dir (i, result) w = (Inr p, w1)" by simp
    from process_image_result [OF this] process_image_resized [OF this] 0 ir show ?thesis
      by simp
  next
    case (Suc j)
    with Cons.prems rs have "j < length irs" "rs' ! j = Inr p" by simp_all
    from Cons.IH [OF p2 this] Suc show ?thesis by simp
  qed
qed

lemma promise_all_Inr: "promise_all rs = Inr xs \<Longrightarrow> rs = map Inr xs"
  by (induction rs arbitrary: xs rule: promise_all.induct) (auto split: sum.splits)

lemma promise_all_Inl: "promise_all rs = Inl e \<Longrightarrow> Inl e \<in> set rs"
  by (induction rs rule: promise_all.induct) (auto split: sum.splits)

lemma promise_all_fails: "Inl e \<in> set rs \<Longrightarrow> \<exists>e'. promise_all rs = Inl e'"
  by (induction rs rule: promise_all.induct) (auto split: sum.splits)

section \<open>File names and paths\<close>

subsection \<open>Decimal rendering\<close>

lemma digit_char_in: "d < 10 \<Longrightarrow> digit_char d \<in> set ''0123456789''"
  unfolding digit_char_def by (rule nth_mem) simp

lemma digit_char_inj:
  assumes "a < 10" "b < 10" "digit_char a = digit_char b"
  shows "a = b"
proof -
  have "distinct ''0123456789''" by simp
  moreover have "a < length ''0123456789''" "b < length ''0123456789''" using assms by simp_all
  ultimately show ?thesis using assms(3) unfolding digit_char_def
    by (simp only: nth_eq_iff_index_eq)
qed

lemma show_nat_digits: "set (show_nat n) \<subseteq> set ''0123456789''"
proof (induction n rule: show_nat.induct)
  case (1 n)
  show ?case
  proof (cases "n < 10")
    case True
    then show ?thesis using digit_char_in [of n] by (subst show_nat.simps) simp
  next
    case False
    have "n mod 10 < 10" by simp
    from digit_char_in [OF this] "1" [OF False] False show ?thesis
      by (subst show_nat.simps) simp
  qed
qed

lemma show_nat_nonempty: "show_nat n \<noteq> []"
  by (subst show_nat.simps) simp

lemma show_nat_inj: "show_nat m = show_nat n \<Longrightarrow> m = n"
proof (induction m arbitrary: n rule: show_nat.induct)
  case (1 m)
  show ?case
  proof (cases "m < 10")
    case m: True
    show ?thesis
    proof (cases "n < 10")
      case True
      with m "1.prems" have "digit_char m = digit_char n"
        by (simp add: show_nat.simps [of m] show_nat.simps [of n])
      with m True show ?thesis by (rule digit_char_inj)
    next
      case False
      with m "1.prems" have "[digit_char m] = show_nat (n div 10) @ [digit_char (n mod 10)]"
        by (simp add: show_nat.simps [of m] show_nat.simps [of n])
      then show ?thesis using show_nat_nonempty [of "n div 10"] by simp
    qed
  next
    case m: False
    show ?thesis
    proof (cases "n < 10")
      case True
      with m "1.prems" have "show_nat (m div 10) @ [digit_char (m mod 10)] = [digit_char n]"
        by (simp add: show_nat.simps [of m] show_nat.simps [of n])
      then show ?thesis using show_nat_nonempty [of "m div 10"] by simp
    next
      case False
      with m "1.prems" have eq: "show_nat (m div 10) = show_nat (n div 10)"
        "digit_char (m mod 10) = digit_char (n mod 10)"
        by (simp_all add: show_nat.simps [of m] show_nat.simps [of n])
      from "1.IH" [OF m eq(1)] have d: "m div 10 = n div 10" .
      have "m mod 10 = n mod 10"
        by (rule digit_char_inj [OF _ _ eq(2)]) simp_all
      with d show ?thesis by (metis div_mult_mod_eq)
    qed
  qed
qed

lemma show_int_chars: "set (show_int i) \<subseteq> set ''-0123456789''"
proof -
  have d: "set (show_nat k) \<subseteq> set ''-0123456789''" for k
    using show_nat_digits [of k] by (rule subset_trans) (rule set_subset_Cons)
  show ?thesis
  proof (cases "i < 0")
    case True
    then have "show_int i = CHR ''-'' # show_nat (nat (- i))" by (simp add: show_int_def)
    moreover have "CHR ''-'' \<in> set ''-0123456789''" by (rule list.set_intros(1))
    ultimately show ?thesis using d [of "nat (- i)"] by (simp only: list.set insert_subset)
  next
    case False
    then have "show_int i = show_nat (nat i)" by (simp add: show_int_def)
    then show ?thesis using d [of "nat i"] by (simp only:)
  qed
qed

lemma show_int_no_sep: "CHR ''_'' \<notin> set (show_int t)" "CHR ''/'' \<notin> set (show_int t)"
proof -
  have "CHR ''_'' \<notin> set ''-0123456789''" "CHR ''/'' \<notin> set ''-0123456789''" by simp_all
  then show "CHR ''_'' \<notin> set (show_int t)" "CHR ''/'' \<notin> set (show_int t)"
    using show_int_chars [of t] by (blast, blast)
qed

lemma show_nat_no_sep: "CHR ''/'' \<notin> set (show_nat k)"
proof -
  have "CHR ''/'' \<notin> set ''0123456789''" by simp
  then show ?thesis using show_nat_digits [of k] by blast
qed

lemma split_at_unique:
  "xs @ c # ys = xs' @ c # ys' \<Longrightarrow> c \<notin> set xs \<Longrightarrow> c \<notin> set xs' \<Longrightarrow> xs = xs' \<and> ys = ys'"
proof (induction xs arbitrary: xs')
  case Nil
  then show ?case by (cases xs') auto
next
  case (Cons x xs)
  then show ?case by (cases xs') auto
qed

lemma image_filename_inj:
  assumes "image_filename t i f = image_filename t' i' f"
  shows "i = i'"
proof -
  from assms have "show_int t @ CHR ''_'' # show_nat i = show_int t' @ CHR ''_'' # show_nat i'"
    by (simp add: image_filename_def)
  moreover have "CHR ''_'' \<notin> set (show_int t)" "CHR ''_'' \<notin> set (show_int t')"
    by (rule show_int_no_sep)+
  ultimately have "show_nat i = show_nat i'" by (rule split_at_unique [THEN conjunct2])
  then show ?thesis by (rule show_nat_inj)
qed

subsection \<open>Joining a directory and a file name\<close>

lemma split_path_nonempty: "split_path s \<noteq> []"
  by (induction s) (auto split: list.splits)

lemma split_path_plain: "CHR ''/'' \<notin> set s \<Longrightarrow> split_path s = [s]"
  by (induction s) auto

lemma split_path_snoc:
  "CHR ''/'' \<notin> set name \<Longrightarrow> split_path (d @ CHR ''/'' # name) = split_path d @ [name]"
proof (induction d)
  case Nil
  then show ?case by (simp add: split_path_plain)
next
  case (Cons c d)
  then show ?case using split_path_nonempty [of d]
    by (cases "split_path d") auto
qed

lemma join_segments_snoc:
  "join_segments (S @ [name]) = (if S = [] then name else join_segments S @ CHR ''/'' # name)"
  by (induction S rule: join_segments.induct) auto

lemma normalizeString_snoc:
  assumes "plain_name name"
  shows "normalizeString (d @ CHR ''/'' # name) a =
         (let S = foldl (normalize_step a) [] (split_path d)
          in (if S = [] then [] else join_segments S @ ''/'') @ name)"
proof -
  have "normalize_step a S name = S @ [name]" for S
    using assms by (simp add: normalize_step_def plain_name_def)
  then show ?thesis using assms
    by (simp add: normalizeString_def split_path_snoc plain_name_def join_segments_snoc Let_def)
qed

lemma path_join_plain:
  "\<exists>pre. \<forall>name. plain_name name \<longrightarrow> path_join d name = pre @ name"
proof (cases "d = []")
  case True
  have "path_join d name = [] @ name" if "plain_name name" for name
  proof -
    from that have n: "name \<noteq> []" "CHR ''/'' \<notin> set name" by (simp_all add: plain_name_def)
    then have h: "hd name \<noteq> CHR ''/''" "last name \<noteq> CHR ''/''"
      by (metis hd_in_set, metis last_in_set)
    have "normalize_step b [] name = [name]" for b
      using that by (simp add: normalize_step_def plain_name_def)
    then have "normalizeString name b = name" for b
      using n by (simp add: normalizeString_def split_path_plain)
    with True n h show ?thesis
      by (simp add: path_join_def path_normalize_def Let_def)
  qed
  then show ?thesis by blast
next
  case False
  define a where "a = (hd d \<noteq> CHR ''/'')"
  define S where "S = foldl (normalize_step a) [] (split_path d)"
  define pre where "pre = (if a then [] else ''/'') @ (if S = [] then [] else join_segments S @ ''/'')"
  have "path_join d name = pre @ name" if "plain_name name" for name
  proof -
    from that have n: "name \<noteq> []" "CHR ''/'' \<notin> set name" by (simp_all add: plain_name_def)
    then have l: "last name \<noteq> CHR ''/''" by (metis last_in_set)
    have ns: "normalizeString (d @ CHR ''/'' # name) a = (if S = [] then [] else join_segments S @ ''/'') @ name"
      using normalizeString_snoc [OF that, of d a] by (simp add: S_def Let_def)
    have ns': "normalizeString (d @ CHR ''/'' # name) (hd d \<noteq> CHR ''/'') =
        (if S = [] then [] else join_segments S @ ''/'') @ name"
      using ns by (simp add: a_def)
    show ?thesis
    proof (cases "hd d = CHR ''/''")
      case True
      with ns' have "normalizeString (d @ CHR ''/'' # name) False =
          (if S = [] then [] else join_segments S @ ''/'') @ name" by simp
      with True False n l show ?thesis
        by (simp add: path_join_def path_normalize_def Let_def pre_def a_def)
    next
      case F: False
      with ns' have "normalizeString (d @ CHR ''/'' # name) True =
          (if S = [] then [] else join_segments S @ ''/'') @ name" by simp
      with F False n l show ?thesis
        by (simp add: path_join_def path_normalize_def Let_def pre_def a_def)
    qed
  qed
  then show ?thesis by blast
qed

lemma path_join_inj:
  assumes "plain_name a" "plain_name b" "path_join d a = path_join d b"
  shows "a = b"
  using path_join_plain [of d] assms by auto

lemma image_filename_plain:
  assumes "f \<in> {''png'', ''jpg'', ''svg''}"
  shows "plain_name (image_filename t i f)"
proof -
  define rest where "rest = ''mage_'' @ show_int t @ ''_'' @ show_nat i @ ''.'' @ f"
  have name: "image_filename t i f = CHR ''i'' # rest"
    by (simp add: image_filename_def rest_def)
  have "CHR ''/'' \<notin> set f" using assms by auto
  then have "CHR ''/'' \<notin> set rest"
    using show_int_no_sep(2) [of t] show_nat_no_sep [of i] by (simp add: rest_def)
  then show ?thesis
    unfolding plain_name_def name by simp
qed

lemma valid_format:
  assumes "isValidGenerateImageArgs args"
  shows "image_format args \<in> {''png'', ''jpg'', ''svg''}"
proof (cases "js_get args ''format''")
  case None
  then show ?thesis by (simp add: image_format_def)
next
  case (Some v)
  with assms have "js_includes [''png'', ''jpg'', ''svg''] (Some v)"
    by (simp add: isValidGenerateImageArgs_def)
  then show ?thesis using Some
    by (cases v) (auto simp: image_format_def)
qed

lemma valid_truthy: "isValidGenerateImageArgs args \<Longrightarrow> truthy args"
  by (cases args rule: typeof.cases) (simp_all add: isValidGenerateImageArgs_def)

lemma image_path_inj:
  assumes "isValidGenerateImageArgs args"
    and "image_path env args dir i = image_path env args dir j"
  shows "i = j"
proof -
  let ?f = "image_format args"
  have "plain_name (image_filename (now env i) i ?f)" "plain_name (image_filename (now env j) j ?f)"
    using valid_format [OF assms(1)] by (simp_all add: image_filename_plain)
  with assms(2) have "image_filename (now env i) i ?f = image_filename (now env j) j ?f"
    unfolding image_path_def by (rule path_join_inj [rotated 2])
  then show ?thesis by (rule image_filename_inj)
qed

subsection \<open>Replacing the first occurrence\<close>

lemma replace_first_suffix:
  assumes "pat \<noteq> rep" "length pat = length rep" "pat \<noteq> []"
  shows "replace_first pat rep (xs @ pat) \<noteq> xs @ pat"
proof (induction xs)
  case Nil
  obtain c cs where p: "pat = c # cs" using assms(3) by (cases pat) auto
  have "replace_first (c # cs) rep (c # cs) = rep"
    by (simp add: starts_with_def)
  then show ?case using assms(1) p by simp
next
  case (Cons x xs)
  define ys where "ys = xs @ pat"
  show ?case
  proof (cases "starts_with (x # ys) pat")
    case True
    then have t: "take (length pat) (x # ys) = pat" by (simp only: starts_with_def)
    have r: "replace_first pat rep (x # ys) = rep @ drop (length pat) (x # ys)"
      using True by (simp only: replace_first.simps if_True)
    have "take (length pat) (rep @ drop (length pat) (x # ys)) = rep"
      using assms(2) by (simp only: take_append take_all [OF order_refl] diff_self_eq_0 take_0 append_Nil2)
    with t assms(1) have "rep @ drop (length pat) (x # ys) \<noteq> x # ys" by metis
    with r show ?thesis unfolding ys_def by (simp only: append_Cons not_False_eq_True)
  next
    case False
    then have "replace_first pat rep (x # ys) = x # replace_first pat rep ys"
      by (simp only: replace_first.simps if_False)
    with Cons show ?thesis by (simp add: ys_def)
  qed
qed

lemma svg_path_moves:
  assumes "image_format args = ''svg''"
  shows "replace_first ''.svg'' ''.png'' (image_path env args dir i) \<noteq> image_path env args dir i"
proof -
  let ?name = "image_filename (now env i) i ''svg''"
  have "plain_name ?name" by (simp add: image_filename_plain)
  with path_join_plain [of dir] obtain pre where "path_join dir ?name = pre @ ?name" by blast
  then have "image_path env args dir i =
      (pre @ ''image_'' @ show_int (now env i) @ ''_'' @ show_nat i) @ ''.svg''"
    using assms by (simp add: image_path_def image_filename_def)
  moreover have "replace_first ''.svg'' ''.png'' (xs @ ''.svg'') \<noteq> xs @ ''.svg''" for xs
    by (rule replace_first_suffix) simp_all
  ultimately show ?thesis by metis
qed

section \<open>The run of a call\<close>

lemma ensure_dir_effects:
  assumes "ensure_dir env p w = (r, w')"
  shows "\<exists>evs. effects w w' evs \<and> resizes evs = [] \<and> writes evs = [] \<and> files w' = files w"
proof (cases "exists_sync w p \<or> mkdir_error env p \<noteq> None")
  case True
  with assms have "w' = w" by (auto simp: ensure_dir_def mkdir_sync_def split: if_splits)
  then show ?thesis using effects_refl by fastforce
next
  case False
  with assms have w': "w' = log_event (Mkdir p) (w\<lparr>dirs := p # parents [] p @ dirs w\<rparr>)"
    by (auto simp: ensure_dir_def mkdir_sync_def split: if_splits)
  then have "effects w w' [Mkdir p]" by (simp add: effects_def)
  with w' show ?thesis by (intro exI [of _ "[Mkdir p]"]) simp
qed

lemma enumerate_nth_zero: "k < length xs \<Longrightarrow> enumerate 0 xs ! k = (k, xs ! k)"
  by (simp add: nth_enumerate_eq)

text \<open>What a run of the \<open>try\<close> block does, in one statement.\<close>

lemma generate_api_failure:
  assumes "images_create env (create_params args) = Inl e"
  shows "generate env args w = (Inl e, log_event (ApiCall (create_params args)) w)"
  using assms by (simp add: generate_def Let_def)

lemma generate_run:
  assumes g: "generate env args w = (r, w')"
    and api: "images_create env (create_params args) = Inr data"
  shows "\<exists>evs. effects w w' (ApiCall (create_params args) # evs) \<and>
           set (resizes evs) \<subseteq> set (concat (map (image_resizes env args) (enumerate 0 data))) \<and>
           set (writes evs) \<subseteq> (\<Union>i \<in> {..<length data}.
              {image_path env args (output_dir env args) i,
               replace_first ''.svg'' ''.png'' (image_path env args (output_dir env args) i)}) \<and>
           (\<forall>rs. r = Inr rs \<longrightarrow>
              resizes evs = concat (map (image_resizes env args) (enumerate 0 data)) \<and>
              length rs = length data \<and>
              (\<forall>k < length data.
                 api_fields (rs ! k) = spread (data ! k) \<and>
                 filename (rs ! k) = image_filename (now env k) k (image_format args) \<and>
                 filepath (rs ! k) = image_path env args (output_dir env args) k \<and>
                 original (rs ! k) = (apiWidth args, apiHeight args) \<and>
                 (num_lt (requestWidth args) (Fin 256) \<or> num_lt (requestHeight args) (Fin 256) \<longrightarrow>
                    (\<exists>t. image_resizes env args (k, data ! k) = [(k, t)]))))"
proof -
  let ?w1 = "log_event (ApiCall (create_params args)) w"
  let ?dir = "output_dir env args"
  have e0: "effects w ?w1 [ApiCall (create_params args)]" by (rule effects_log) simp
  obtain r2 w2 where ed: "ensure_dir env ?dir ?w1 = (r2, w2)" by fastforce
  from ensure_dir_effects [OF ed] obtain ev2 where
    ev2: "effects ?w1 w2 ev2" "resizes ev2 = []" "writes ev2 = []" by blast
  show ?thesis
  proof (cases r2)
    case (Inl e)
    with g api ed have "r = Inl e" "w' = w2" by (simp_all add: generate_def Let_def)
    moreover from effects_trans [OF e0 ev2(1)] have "effects w w2 (ApiCall (create_params args) # ev2)"
      by simp
    ultimately show ?thesis using ev2 by (intro exI [of _ ev2]) simp
  next
    case (Inr u)
    obtain outcomes w3 where pa: "process_all env args ?dir (enumerate 0 data) w2 = (outcomes, w3)"
      by fastforce
    with g api ed Inr have r: "r = promise_all outcomes" and w': "w' = w3"
      by (simp_all add: generate_def Let_def)
    from process_all_effects [OF pa] obtain ev3 where
      ev3: "effects w2 w3 ev3" "resizes ev3 = concat (map (image_resizes env args) (enumerate 0 data))"
        "set (writes ev3) \<subseteq> (\<Union>ir \<in> set (enumerate 0 data). {image_path env args ?dir (fst ir),
                                replace_first ''.svg'' ''.png'' (image_path env args ?dir (fst ir))})"
      by blast
    have eff: "effects w w' (ApiCall (create_params args) # (ev2 @ ev3))"
      using effects_trans [OF effects_trans [OF e0 ev2(1)] ev3(1)] w' by simp
    have rz: "resizes (ev2 @ ev3) = concat (map (image_resizes env args) (enumerate 0 data))"
      using ev2(2) ev3(2) by simp
    have "fst ir < length data" if "ir \<in> set (enumerate 0 data)" for ir
      using that by (auto simp: in_set_enumerate_eq)
    with ev3(3) have wr: "set (writes (ev2 @ ev3)) \<subseteq> (\<Union>i \<in> {..<length data}.
              {image_path env args ?dir i, replace_first ''.svg'' ''.png'' (image_path env args ?dir i)})"
      using ev2(3) by fastforce
    have res: "length rs = length data \<and>
              (\<forall>k < length data.
                 api_fields (rs ! k) = spread (data ! k) \<and>
                 filename (rs ! k) = image_filename (now env k) k (image_format args) \<and>
                 filepath (rs ! k) = image_path env args ?dir k \<and>
                 original (rs ! k) = (apiWidth args, apiHeight args) \<and>
                 (num_lt (requestWidth args) (Fin 256) \<or> num_lt (requestHeight args) (Fin 256) \<longrightarrow>
                    (\<exists>t. image_resizes env args (k, data ! k) = [(k, t)])))"
      if "r = Inr rs" for rs
    proof -
      from that r have o: "outcomes = map Inr rs" by (simp add: promise_all_Inr)
      from process_all_length [OF pa] o have len: "length rs = length data" by simp
      have "api_fields (rs ! k) = spread (data ! k) \<and>
                 filename (rs ! k) = image_filename (now env k) k (image_format args) \<and>
                 filepath (rs ! k) = image_path env args ?dir k \<and>
                 original (rs ! k) = (apiWidth args, apiHeight args) \<and>
                 (num_lt (requestWidth args) (Fin 256) \<or> num_lt (requestHeight args) (Fin 256) \<longrightarrow>
                    (\<exists>t. image_resizes env args (k, data ! k) = [(k, t)]))"
        if k: "k < length data" for k
      proof -
        have "k < length (enumerate 0 data)" using k by simp
        moreover have "outcomes ! k = Inr (rs ! k)" using o k len by simp
        ultimately show ?thesis
          using process_all_results [OF pa, of k "rs ! k"] enumerate_nth_zero [OF k] by simp
      qed
      with len show ?thesis by blast
    qed
    have rz_sub: "set (resizes (ev2 @ ev3)) \<subseteq> set (concat (map (image_resizes env args) (enumerate 0 data)))"
      by (simp only: rz subset_refl)
    have fin: "\<forall>rs. r = Inr rs \<longrightarrow>
              resizes (ev2 @ ev3) = concat (map (image_resizes env args) (enumerate 0 data)) \<and>
              length rs = length data \<and>
              (\<forall>k < length data.
                 api_fields (rs ! k) = spread (data ! k) \<and>
                 filename (rs ! k) = image_filename (now env k) k (image_format args) \<and>
                 filepath (rs ! k) = image_path env args ?dir k \<and>
                 original (rs ! k) = (apiWidth args, apiHeight args) \<and>
                 (num_lt (requestWidth args) (Fin 256) \<or> num_lt (requestHeight args) (Fin 256) \<longrightarrow>
                    (\<exists>t. image_resizes env args (k, data ! k) = [(k, t)])))"
    proof (intro allI impI)
      fix rs assume "r = Inr rs"
      from rz res [OF this] show "resizes (ev2 @ ev3) = concat (map (image_resizes env args) (enumerate 0 data)) \<and>
              length rs = length data \<and>
              (\<forall>k < length data.
                 api_fields (rs ! k) = spread (data ! k) \<and>
                 filename (rs ! k) = image_filename (now env k) k (image_format args) \<and>
                 filepath (rs ! k) = image_path env args ?dir k \<and>
                 original (rs ! k) = (apiWidth args, apiHeight args) \<and>
                 (num_lt (requestWidth args) (Fin 256) \<or> num_lt (requestHeight args) (Fin 256) \<longrightarrow>
                    (\<exists>t. image_resizes env args (k, data ! k) = [(k, t)])))"
        by (rule conjI)
    qed
    show ?thesis
      by (rule exI [of _ "ev2 @ ev3"]) (intro conjI eff rz_sub wr fin)
  qed
qed

lemma handle_call_valid:
  assumes "tool_name req = ''generate_image''" "isValidGenerateImageArgs (arguments req)"
  shows "handle_call env req w =
         (case generate env (arguments req) w of
            (Inl e, w1) \<Rightarrow>
              (Inl (InternalError (''Image generation failed: '' @ error_text e)),
               log_event (ConsoleError e) w1)
          | (Inr results, w1) \<Rightarrow> (Inr results, w1))"
  using assms valid_truthy [OF assms(2)] by (simp add: handle_call_def)

end
